theory Spec2Isabelle
  imports Main "HOL-Library.Word"
begin

section \<open>MTA\_Alerts: the data cache of \<open>datacache.js\<close>\<close>

text \<open>
  The data cache polls the MTA for subway alerts, keeps one accounting record per subway
  line and answers status and uptime queries. The repository holds two versions of
  \<open>datacache.js\<close>: the first reads the GTFS alert feeds, the second adds a scrape of the
  public status page behind the hard-coded flag \<open>sourceIsGtfsApi\<close>. The feed code of the
  two versions is the same text; both paths are embedded here. Line numbers are those of
  the first version for the feed code and the queries, and those of the second version,
  counted on from the first, for the scrape code.

  Times are the millisecond readings of \<open>new Date().getTime()\<close>, modelled as \<open>int\<close>. The
  clock readings are inputs of the model: every function that reads the clock in the
  source takes the reading as its first argument.
\<close>

subsection \<open>Line records and the store\<close>

datatype line_status = NOT_DELAYED | DELAYED

record LineRecord =
  activeTime :: int
  undelayedTime :: int
  lastUpdated :: int
  status :: line_status

definition initLineData :: "int \<Rightarrow> LineRecord" where
  "initLineData time =
     \<lparr>activeTime = 0, undelayedTime = 0, lastUpdated = time, status = NOT_DELAYED\<rparr>"

definition SUBWAY_LINES :: "string list" where
  "SUBWAY_LINES =
     [''1'', ''2'', ''3'', ''4'', ''5'', ''6'', ''7'',
      ''A'', ''B'', ''C'', ''D'', ''E'', ''F'', ''G'', ''J'', ''L'', ''M'', ''N'', ''Q'',
      ''R'', ''W'', ''Z'',
      ''SI'']"

text \<open>
  \<open>lineData\<close> is a plain JavaScript object created as \<open>{}\<close> and used as a dictionary. Its
  own properties are the line records: a map from line id to record. The source tests
  \<open>!lineData[key]\<close>, and a property read on \<open>{}\<close> also finds the properties every object
  inherits from \<open>Object.prototype\<close>, all of them functions or objects and so truthy. A
  read is therefore one of three things: an own record, an inherited built-in, or
  \<open>undefined\<close>. Assignments made through an inherited name land on the built-in object and
  leave the own properties as they are; the fields of the built-in objects are not
  tracked, and \<open>Object.prototype\<close> is taken to keep its standard property names.
\<close>

type_synonym store = "string \<rightharpoonup> LineRecord"

definition Object_prototype_names :: "string list" where
  "Object_prototype_names =
     [''constructor'', ''__defineGetter__'', ''__defineSetter__'', ''hasOwnProperty'',
      ''__lookupGetter__'', ''__lookupSetter__'', ''isPrototypeOf'',
      ''propertyIsEnumerable'', ''toString'', ''valueOf'', ''__proto__'',
      ''toLocaleString'']"

datatype 'a property = Own 'a | Inherited | Absent

definition lookup :: "store \<Rightarrow> string \<Rightarrow> LineRecord property" where
  "lookup ld key =
     (case ld key of
        Some r \<Rightarrow> Own r
      | None \<Rightarrow> if key \<in> set Object_prototype_names then Inherited else Absent)"

subsection \<open>Promises, exceptions and \<open>forEach\<close>\<close>

text \<open>
  A promise is modelled by what it settles to. An exception thrown inside a callback
  stops the callback where it stands: the mutations made so far stay, so a thrown
  outcome carries the state reached.
\<close>

datatype 'a promise = Rejected | Resolved 'a

datatype 's outcome = Returned 's | Threw 's

fun state_of :: "'s outcome \<Rightarrow> 's" where
  "state_of (Returned s) = s"
| "state_of (Threw s) = s"

fun forEach :: "('a \<Rightarrow> 's \<Rightarrow> 's outcome) \<Rightarrow> 'a list \<Rightarrow> 's \<Rightarrow> 's outcome" where
  "forEach f [] s = Returned s"
| "forEach f (x # xs) s =
     (case f x s of Returned s' \<Rightarrow> forEach f xs s' | Threw s' \<Rightarrow> Threw s')"

fun Promise_all :: "'a promise list \<Rightarrow> 'a list promise" where
  "Promise_all [] = Resolved []"
| "Promise_all (p # ps) =
     (case p of
        Rejected \<Rightarrow> Rejected
      | Resolved x \<Rightarrow>
          (case Promise_all ps of Rejected \<Rightarrow> Rejected | Resolved xs \<Rightarrow> Resolved (x # xs)))"

subsection \<open>The feed request: \<open>makeRequest\<close>\<close>

text \<open>
  The decoded feed, with the fields the source reads and the shapes the decoder gives
  them. An optional field that protobuf leaves unset is \<open>None\<close>; a repeated field is an
  array, here a list: \<open>entity\<close>, \<open>informed_entity\<close> and, in GTFS-realtime, the
  \<open>translation\<close> of a translated string. The two protobuf decoders are external: they are
  parameters, partial maps from the payload to the decoded message, \<open>None\<close> where \<open>decode\<close>
  throws.
\<close>

type_synonym Buffer = "8 word list"

record Translation =
  text' :: string

record TranslatedString =
  translation :: "Translation list"

record EntitySelector =
  route_id :: "string option"

record Alert =
  header_text :: "TranslatedString option"
  informed_entity :: "EntitySelector list"

record FeedEntity =
  alert :: "Alert option"

record FeedMessage =
  entity :: "FeedEntity list"

text \<open>What \<open>makeRequest\<close> resolves with: a decoded message, or the object \<open>{}\<close>.\<close>

datatype msg = EmptyObject | Decoded FeedMessage

text \<open>The HTTPS exchange of one request: the \<open>error\<close> event, or a response with its
  status code and the chunks of its body.\<close>

datatype http = ConnectionError | Response int "Buffer list"

definition makeRequest ::
  "(Buffer \<rightharpoonup> FeedMessage) \<Rightarrow> (Buffer \<rightharpoonup> FeedMessage) \<Rightarrow> http \<Rightarrow> msg promise" where
  "makeRequest nstrDecoder nsssDecoder exchange =
     (case exchange of
        ConnectionError \<Rightarrow> Rejected
      | Response statusCode chunks \<Rightarrow>
          if statusCode < 200 \<or> statusCode \<ge> 300 then Rejected
          else
            (let data = concat chunks in
             Resolved
               (case nstrDecoder data of
                  Some m \<Rightarrow> Decoded m
                | None \<Rightarrow>
                    (case nsssDecoder data of
                       Some m \<Rightarrow> Decoded m
                     | None \<Rightarrow> EmptyObject))))"

subsection \<open>The feed cycle: \<open>refreshData\<close> over the GTFS feeds\<close>

text \<open>
  \<open>new RegExp('^delays\b', 'i')\<close>: inside a JavaScript string literal \<open>\b\<close> is the
  backspace character U+0008, so the pattern is the six letters followed by a backspace,
  anchored at the start, letters compared without case. \<open>search\<close> returns the index of
  the match, which can only be 0, or -1.
\<close>

definition toUpperCase :: "char \<Rightarrow> char" where
  "toUpperCase c =
     (case map_of (zip ''abcdefghijklmnopqrstuvwxyz'' ''ABCDEFGHIJKLMNOPQRSTUVWXYZ'') c of
        Some u \<Rightarrow> u
      | None \<Rightarrow> c)"

definition delaysRegExp :: string where
  "delaysRegExp = ''delays'' @ [CHR 0x08]"

definition search :: "string \<Rightarrow> string \<Rightarrow> int" where
  "search alertHeader pattern =
     (if map toUpperCase (take (length pattern) alertHeader) = map toUpperCase pattern
      then 0 else - 1)"

text \<open>Lines 130 to 136: the record of a route named by a delay alert.\<close>

definition seenDelayed :: "int \<Rightarrow> LineRecord \<Rightarrow> LineRecord" where
  "seenDelayed currentTime r =
     r\<lparr>activeTime := activeTime r + (currentTime - lastUpdated r),
       lastUpdated := currentTime,
       status := DELAYED\<rparr>"

text \<open>Lines 127 to 136 on the store, for a truthy route id.\<close>

definition markDelayed :: "int \<Rightarrow> string \<Rightarrow> store \<Rightarrow> store" where
  "markDelayed currentTime key ld =
     (case lookup ld key of
        Own r \<Rightarrow> ld(key \<mapsto> seenDelayed currentTime r)
      | Absent \<Rightarrow> ld(key \<mapsto> seenDelayed currentTime (initLineData currentTime))
      | Inherited \<Rightarrow> ld)"

text \<open>
  The state of the \<open>then\<close> callback: \<open>linesSeen\<close> (the route ids set to \<open>true\<close>) and
  \<open>lineData\<close>. An unset or empty \<open>route_id\<close> is falsy and skipped. \<open>linesSeen\<close> is read
  only at the entries of \<open>SUBWAY_LINES\<close>, none of which is an inherited name, so a read
  is truthy exactly for the route ids that were set.
\<close>

type_synonym cycle_state = "string list \<times> store"

definition infEntity_step :: "int \<Rightarrow> EntitySelector \<Rightarrow> cycle_state \<Rightarrow> cycle_state" where
  "infEntity_step currentTime infEntity s =
     (case route_id infEntity of
        None \<Rightarrow> s
      | Some key \<Rightarrow>
          if key = [] then s
          else (key # fst s, markDelayed currentTime key (snd s)))"

text \<open>
  Line 118 reads \<open>header_text.translation.text\<close>: the property \<open>text\<close> of the array of
  translations, not of one of its elements. An array has no such property, so the read
  gives \<open>undefined\<close>, here \<open>None\<close>.
\<close>

definition Array_text :: "Translation list \<Rightarrow> string option" where
  "Array_text array = None"

text \<open>
  Lines 116 to 140. An array is truthy, also when it is empty, so the guard of line 116
  passes as soon as \<open>alert\<close> and \<open>header_text\<close> are set. When \<open>alertHeader\<close> is \<open>undefined\<close>
  the test \<open>alertHeader != ''\<close> holds and the call \<open>alertHeader.search\<close> throws a TypeError.
\<close>

definition feedEntity_step ::
  "int \<Rightarrow> FeedEntity \<Rightarrow> cycle_state \<Rightarrow> cycle_state outcome" where
  "feedEntity_step currentTime feedEntity s =
     (case alert feedEntity of
        None \<Rightarrow> Returned s
      | Some a \<Rightarrow>
          (case header_text a of
             None \<Rightarrow> Returned s
           | Some h \<Rightarrow>
               (case Array_text (translation h) of
                  None \<Rightarrow> Threw s
                | Some alertHeader \<Rightarrow>
                    if alertHeader \<noteq> [] \<and> search alertHeader delaysRegExp \<ge> 0
                    then Returned (fold (infEntity_step currentTime) (informed_entity a) s)
                    else Returned s)))"

text \<open>Lines 113 and 114. On \<open>{}\<close> the property \<open>entity\<close> is \<open>undefined\<close> and the call of
  \<open>forEach\<close> throws a TypeError.\<close>

definition feedMessage_step :: "int \<Rightarrow> msg \<Rightarrow> cycle_state \<Rightarrow> cycle_state outcome" where
  "feedMessage_step currentTime feedMessage s =
     (case feedMessage of
        EmptyObject \<Rightarrow> Threw s
      | Decoded m \<Rightarrow> forEach (feedEntity_step currentTime) (entity m) s)"

text \<open>Lines 148 to 157: the record of a line that no delay alert named.\<close>

definition notSeen :: "int \<Rightarrow> LineRecord \<Rightarrow> LineRecord" where
  "notSeen currentTime r =
     (let deltaTime = currentTime - lastUpdated r in
      r\<lparr>activeTime := activeTime r + deltaTime,
        lastUpdated := currentTime,
        undelayedTime :=
          (if status r = NOT_DELAYED then undelayedTime r + deltaTime else undelayedTime r),
        status := NOT_DELAYED\<rparr>)"

text \<open>Lines 147 to 158. Reading \<open>lastUpdated\<close> of \<open>undefined\<close> throws a TypeError.\<close>

definition lineId_step :: "int \<Rightarrow> string list \<Rightarrow> string \<Rightarrow> store \<Rightarrow> store outcome" where
  "lineId_step currentTime linesSeen lineId ld =
     (if lineId \<in> set linesSeen then Returned ld
      else
        (case lookup ld lineId of
           Own r \<Rightarrow> Returned (ld(lineId \<mapsto> notSeen currentTime r))
         | Absent \<Rightarrow> Threw ld
         | Inherited \<Rightarrow> Returned ld))"

text \<open>The \<open>then\<close> callback of lines 111 to 160.\<close>

definition onResults :: "int \<Rightarrow> msg list \<Rightarrow> store \<Rightarrow> store outcome" where
  "onResults currentTime results ld =
     (case forEach (feedMessage_step currentTime) results ([], ld) of
        Threw s \<Rightarrow> Threw (snd s)
      | Returned s \<Rightarrow> forEach (lineId_step currentTime (fst s)) SUBWAY_LINES (snd s))"

text \<open>
  The list of feeds, one entry in both versions (the second version names
  \<open>nyct%2fgtfs-ace\<close> instead, in a branch that its flag switches off).
\<close>

definition FEED_IDS :: "string list" where
  "FEED_IDS = [''camsys%2Fsubway-alerts'']"

text \<open>
  One cycle of the feed variant. \<open>requests feedId\<close> is what the promise of
  \<open>makeRequest(baseUrl, feedId, apiKey)\<close> settles to. The cycle is \<open>Rejected\<close> when
  \<open>Promise.all\<close> rejects, and otherwise the outcome of the callback. The \<open>catch\<close> handler
  does nothing, so \<open>refreshData\<close> leaves the store as the cycle left it.
\<close>

definition gtfs_cycle ::
  "int \<Rightarrow> (string \<Rightarrow> msg promise) \<Rightarrow> store \<Rightarrow> store outcome promise" where
  "gtfs_cycle currentTime requests ld =
     (case Promise_all (map requests FEED_IDS) of
        Rejected \<Rightarrow> Rejected
      | Resolved results \<Rightarrow> Resolved (onResults currentTime results ld))"

definition refreshData_gtfs :: "int \<Rightarrow> (string \<Rightarrow> msg promise) \<Rightarrow> store \<Rightarrow> store" where
  "refreshData_gtfs currentTime requests ld =
     (case gtfs_cycle currentTime requests ld of
        Rejected \<Rightarrow> ld
      | Resolved result \<Rightarrow> state_of result)"

subsection \<open>The scrape cycle: \<open>refreshData\<close> over the status page\<close>

text \<open>
  \<open>scrapePage\<close> resolves with the object \<open>lineStatus\<close>, whose values are the strings
  \<open>'delayed'\<close> and \<open>'undelayed'\<close>. The object is an association list; its keys are the
  distinct first components and a read finds the first binding.
\<close>

datatype verdict = delayed | undelayed

type_synonym lineStatus = "(string \<times> verdict) list"

definition Object_keys :: "lineStatus \<Rightarrow> string list" where
  "Object_keys obj = remdups (map fst obj)"

text \<open>Lines 462 to 476 on the record of a scraped line.\<close>

definition judged :: "int \<Rightarrow> verdict option \<Rightarrow> LineRecord \<Rightarrow> LineRecord" where
  "judged currentTime j r =
     (let deltaTime = currentTime - lastUpdated r;
          r1 = r\<lparr>activeTime := activeTime r + deltaTime, lastUpdated := currentTime\<rparr>;
          r2 = (if status r1 = NOT_DELAYED \<and> j = Some delayed
                then r1\<lparr>status := DELAYED\<rparr> else r1)
      in if j = Some undelayed
         then (let r3 = r2\<lparr>undelayedTime := undelayedTime r2 + deltaTime\<rparr>
               in if status r3 = DELAYED then r3\<lparr>status := NOT_DELAYED\<rparr> else r3)
         else r2)"

text \<open>Lines 459 to 476 on the store.\<close>

definition line_step :: "int \<Rightarrow> lineStatus \<Rightarrow> string \<Rightarrow> store \<Rightarrow> store" where
  "line_step currentTime lineStatus line ld =
     (case lookup ld line of
        Own r \<Rightarrow> ld(line \<mapsto> judged currentTime (map_of lineStatus line) r)
      | Absent \<Rightarrow>
          ld(line \<mapsto> judged currentTime (map_of lineStatus line) (initLineData currentTime))
      | Inherited \<Rightarrow> ld)"

text \<open>One cycle of the scrape variant; \<open>scraped\<close> is what \<open>scrapePage()\<close> settles to.\<close>

definition refreshData_scrape :: "int \<Rightarrow> lineStatus promise \<Rightarrow> store \<Rightarrow> store" where
  "refreshData_scrape currentTime scraped ld =
     (case scraped of
        Rejected \<Rightarrow> ld
      | Resolved lineStatus \<Rightarrow>
          fold (line_step currentTime lineStatus) (Object_keys lineStatus) ld)"

subsection \<open>The class \<open>DataCache\<close>\<close>

record DataCache =
  lineData :: store
  startTime :: int

text \<open>The constructor. Its call of \<open>refreshData\<close> and the timer only start cycles, which
  run later.\<close>

definition new_DataCache :: "int \<Rightarrow> DataCache" where
  "new_DataCache time =
     \<lparr>lineData = fold (\<lambda>lineId ld. ld(lineId \<mapsto> initLineData time)) SUBWAY_LINES Map.empty,
      startTime = time\<rparr>"

definition getLines :: "DataCache \<Rightarrow> string list" where
  "getLines this = SUBWAY_LINES"

text \<open>
  What a query returns. \<open>Fixed3 n d\<close> stands for the text \<open>(n / d).toFixed(3)\<close>; the
  floating-point division and its rounding to three decimals are not modelled. Through an
  inherited name the source reads the fields of a built-in object: \<open>getStatus\<close> returns
  its \<open>status\<close> property (\<open>Builtin_status\<close>, not a text of the cache), and in \<open>getUptime\<close>
  the arithmetic on \<open>undefined\<close> gives \<open>NaN\<close>, which fails the baseline test and is
  printed as \<open>'NaN'\<close>.
\<close>

datatype reply =
    Not_found
  | No_baseline
  | Status_text line_status
  | Fixed3 int int
  | Builtin_status
  | NaN_text

text \<open>The queries only read; they return the cache with the reply so that this can be
  stated.\<close>

definition getUptime :: "int \<Rightarrow> DataCache \<Rightarrow> string \<Rightarrow> reply \<times> DataCache" where
  "getUptime now this line =
     (case lookup (lineData this) line of
        Absent \<Rightarrow> (Not_found, this)
      | Inherited \<Rightarrow> (NaN_text, this)
      | Own r \<Rightarrow>
          (let deltaTime = now - lastUpdated r;
               activeTime' = activeTime r + deltaTime
           in if activeTime' < 1000 then (No_baseline, this)
              else
                (let undelayedTime' =
                       (if status r = NOT_DELAYED then undelayedTime r + deltaTime
                        else undelayedTime r)
                 in (Fixed3 undelayedTime' activeTime', this))))"

definition getStatus :: "DataCache \<Rightarrow> string \<Rightarrow> reply \<times> DataCache" where
  "getStatus this line =
     (case lookup (lineData this) line of
        Absent \<Rightarrow> (Not_found, this)
      | Inherited \<Rightarrow> (Builtin_status, this)
      | Own r \<Rightarrow> (Status_text (status r), this))"

subsection \<open>Runs of the cache\<close>

text \<open>
  What happens to a cache after its construction: cycles of either variant, each with the
  clock reading taken in its callback, and queries. JavaScript runs each callback to its
  end before the next one starts, so a run is a sequence.
\<close>

datatype event =
    Refresh_gtfs int "string \<Rightarrow> msg promise"
  | Refresh_scrape int "lineStatus promise"
  | Get_status string
  | Get_uptime int string

fun step :: "event \<Rightarrow> DataCache \<Rightarrow> DataCache" where
  "step (Refresh_gtfs currentTime requests) this =
     this\<lparr>lineData := refreshData_gtfs currentTime requests (lineData this)\<rparr>"
| "step (Refresh_scrape currentTime scraped) this =
     this\<lparr>lineData := refreshData_scrape currentTime scraped (lineData this)\<rparr>"
| "step (Get_status line) this = snd (getStatus this line)"
| "step (Get_uptime now line) this = snd (getUptime now this line)"

definition run :: "event list \<Rightarrow> DataCache \<Rightarrow> DataCache" where
  "run events this = fold step events this"

text \<open>The clock readings of the cycles of a run, in order.\<close>

fun clock :: "event list \<Rightarrow> int list" where
  "clock [] = []"
| "clock (Refresh_gtfs currentTime requests # events) = currentTime # clock events"
| "clock (Refresh_scrape currentTime scraped # events) = currentTime # clock events"
| "clock (Get_status line # events) = clock events"
| "clock (Get_uptime now line # events) = clock events"

subsection \<open>The routes of an alert, and when the callback throws\<close>

text \<open>The truthy route ids of the informed entities of an alert, in the order in which
  the loop of lines 124 to 138 marks them.\<close>

fun routes :: "EntitySelector list \<Rightarrow> string list" where
  "routes [] = []"
| "routes (infEntity # rest) =
     (case route_id infEntity of
        None \<Rightarrow> routes rest
      | Some key \<Rightarrow> if key = [] then routes rest else key # routes rest)"

text \<open>An entity that has both \<open>alert\<close> and \<open>header_text\<close> set, and a resolved message on
  which the loops of lines 113 to 142 throw.\<close>

definition carries_header :: "FeedEntity \<Rightarrow> bool" where
  "carries_header feedEntity =
     (case alert feedEntity of None \<Rightarrow> False | Some a \<Rightarrow> header_text a \<noteq> None)"

fun throws :: "msg \<Rightarrow> bool" where
  "throws EmptyObject = True"
| "throws (Decoded m) = list_ex carries_header (entity m)"

subsection \<open>The lines seen delayed, in the words of the specification\<close>

text \<open>
  The specification reads an alert entity as "line X is delayed" if and only if its header
  string begins with the token \<open>delays\<close>, compared without case, for the lines that the
  entity lists. The functions below say this on the decoded feed, independently of the
  test that \<open>refreshData\<close> makes: the header strings of an entity are the texts of the
  translations of its \<open>header_text\<close>.
\<close>

definition header_strings :: "FeedEntity \<Rightarrow> string list" where
  "header_strings feedEntity =
     (case alert feedEntity of
        None \<Rightarrow> []
      | Some a \<Rightarrow>
          (case header_text a of None \<Rightarrow> [] | Some h \<Rightarrow> map text' (translation h)))"

definition begins_with_delays :: "string \<Rightarrow> bool" where
  "begins_with_delays header \<longleftrightarrow> map toUpperCase (take 6 header) = ''DELAYS''"

definition spec_delay_routes :: "FeedEntity \<Rightarrow> string list" where
  "spec_delay_routes feedEntity =
     (if list_ex begins_with_delays (header_strings feedEntity)
      then (case alert feedEntity of None \<Rightarrow> [] | Some a \<Rightarrow> routes (informed_entity a))
      else [])"


subsection \<open>Invariants of the store\<close>

text \<open>
  A record is in order at clock reading \<open>t\<close> when its counters are ordered and it was
  last updated no later than \<open>t\<close>. A store grows into another when every record is still
  there with \<open>activeTime\<close> and \<open>lastUpdated\<close> no smaller.
\<close>

definition record_ok :: "int \<Rightarrow> LineRecord \<Rightarrow> bool" where
  "record_ok t r \<longleftrightarrow>
     0 \<le> undelayedTime r \<and> undelayedTime r \<le> activeTime r \<and> lastUpdated r \<le> t"

definition store_ok :: "int \<Rightarrow> store \<Rightarrow> bool" where
  "store_ok t ld \<longleftrightarrow> (\<forall>key r. ld key = Some r \<longrightarrow> record_ok t r)"

definition grows :: "store \<Rightarrow> store \<Rightarrow> bool" where
  "grows ld ld' \<longleftrightarrow>
     (\<forall>key r. ld key = Some r \<longrightarrow>
        (\<exists>r'. ld' key = Some r' \<and> activeTime r \<le> activeTime r' \<and>
              lastUpdated r \<le> lastUpdated r'))"

definition evolves :: "int \<Rightarrow> store \<Rightarrow> store \<Rightarrow> bool" where
  "evolves t ld ld' \<longleftrightarrow> store_ok t ld' \<and> grows ld ld'"

section \<open>Properties\<close>

subsection \<open>Reading the store\<close>

lemmas store_defs =
  new_DataCache_def SUBWAY_LINES_def initLineData_def lookup_def Object_prototype_names_def

lemmas gtfs_defs =
  refreshData_gtfs_def gtfs_cycle_def FEED_IDS_def onResults_def feedMessage_step_def
  feedEntity_step_def Array_text_def infEntity_step_def markDelayed_def seenDelayed_def
  notSeen_def lineId_step_def search_def delaysRegExp_def toUpperCase_def

lemmas scrape_defs =
  refreshData_scrape_def Object_keys_def line_step_def judged_def

lemma lookup_Some [simp]: "ld key = Some r \<Longrightarrow> lookup ld key = Own r"
  by (simp add: lookup_def)

lemma lookup_cases:
  obtains (own) r where "ld key = Some r" "lookup ld key = Own r"
  | (inherited) "ld key = None" "lookup ld key = Inherited"
  | (absent) "ld key = None" "lookup ld key = Absent"
  by (cases "ld key"; cases "key \<in> set Object_prototype_names") (auto simp: lookup_def)

lemma SUBWAY_LINES_not_inherited: "set SUBWAY_LINES \<inter> set Object_prototype_names = {}"
  by (simp add: SUBWAY_LINES_def Object_prototype_names_def)

subsection \<open>Marking a route delayed\<close>

lemma markDelayed_other: "k \<noteq> key \<Longrightarrow> markDelayed now key ld k = ld k"
  by (simp add: markDelayed_def split: property.splits)

lemma markDelayed_own:
  "ld key = Some r \<Longrightarrow> markDelayed now key ld key = Some (seenDelayed now r)"
  by (simp add: markDelayed_def)

lemma seenDelayed_twice: "seenDelayed now (seenDelayed now r) = seenDelayed now r"
  by (simp add: seenDelayed_def)

lemma markDelayed_twice:
  "markDelayed now key (markDelayed now key ld) = markDelayed now key ld"
  by (cases ld key rule: lookup_cases) (simp_all add: markDelayed_def seenDelayed_twice)

lemma markDelayed_cong:
  "ld1 key = ld2 key \<Longrightarrow> markDelayed now key ld1 key = markDelayed now key ld2 key"
  by (auto simp: markDelayed_def lookup_def split: option.splits)

lemma fold_markDelayed:
  "fold (markDelayed now) keys ld k = (if k \<in> set keys then markDelayed now k ld k else ld k)"
proof (induction keys arbitrary: ld)
  case Nil
  show ?case by simp
next
  case (Cons key keys)
  show ?case
  proof (cases "key = k")
    case True
    have "markDelayed now k (markDelayed now k ld) k = markDelayed now k ld k"
      by (simp add: markDelayed_twice)
    with True Cons show ?thesis by simp
  next
    case False
    then have same: "markDelayed now key ld k = ld k"
      by (simp add: markDelayed_other)
    then have "markDelayed now k (markDelayed now key ld) k = markDelayed now k ld k"
      by (rule markDelayed_cong)
    with False same Cons show ?thesis by auto
  qed
qed

subsection \<open>The callback\<close>

lemma fold_infEntity_step:
  "fold (infEntity_step now) es s =
     (rev (routes es) @ fst s, fold (markDelayed now) (routes es) (snd s))"
  by (induction es arbitrary: s) (auto simp: infEntity_step_def split: option.splits)

text \<open>The alert loops never get to mark a route: an entity with a header throws, and any
  other entity is skipped.\<close>

lemma feedEntity_step_eq:
  "feedEntity_step now e s = (if carries_header e then Threw s else Returned s)"
  by (simp add: feedEntity_step_def carries_header_def Array_text_def split: option.splits)

lemma forEach_feedEntity_step:
  "forEach (feedEntity_step now) es s =
     (if list_ex carries_header es then Threw s else Returned s)"
  by (induction es) (simp_all add: feedEntity_step_eq)

lemma feedMessage_step_eq:
  "feedMessage_step now m s = (if throws m then Threw s else Returned s)"
  by (cases m) (simp_all add: feedMessage_step_def forEach_feedEntity_step)

lemma forEach_feedMessage_step:
  "forEach (feedMessage_step now) results s =
     (if list_ex throws results then Threw s else Returned s)"
  by (induction results) (simp_all add: feedMessage_step_eq)

lemma onResults_eq:
  "onResults now results ld =
     (if list_ex throws results then Threw ld
      else forEach (lineId_step now []) SUBWAY_LINES ld)"
  by (simp add: onResults_def forEach_feedMessage_step)







lemma Promise_all_Resolved: "Promise_all (map Resolved xs) = Resolved xs"
  by (induction xs) simp_all







lemma Promise_all_Rejected: "Promise_all ps = Rejected \<longleftrightarrow> Rejected \<in> set ps"
  by (induction ps) (auto split: promise.splits)

lemma gtfs_failed_noop:
  "Rejected \<in> requests ` set FEED_IDS \<Longrightarrow> refreshData_gtfs now requests ld = ld"
proof -
  assume "Rejected \<in> requests ` set FEED_IDS"
  then have "Rejected \<in> set (map requests FEED_IDS)" by simp
  then have "Promise_all (map requests FEED_IDS) = Rejected"
    by (simp only: Promise_all_Rejected)
  then show ?thesis by (simp add: refreshData_gtfs_def gtfs_cycle_def)
qed

subsection \<open>Every step keeps the store in order\<close>

lemma grows_refl: "grows ld ld"
  by (simp add: grows_def)

lemma grows_trans:
  assumes "grows a b" and "grows b c"
  shows "grows a c"
  unfolding grows_def
proof (intro allI impI)
  fix key r
  assume "a key = Some r"
  with assms(1) obtain r1 where
    r1: "b key = Some r1" "activeTime r \<le> activeTime r1" "lastUpdated r \<le> lastUpdated r1"
    unfolding grows_def by blast
  from assms(2) r1(1) obtain r2 where
    r2: "c key = Some r2" "activeTime r1 \<le> activeTime r2" "lastUpdated r1 \<le> lastUpdated r2"
    unfolding grows_def by blast
  from r1 r2 have "activeTime r \<le> activeTime r2 \<and> lastUpdated r \<le> lastUpdated r2"
    by simp
  with r2(1) show "\<exists>r'. c key = Some r' \<and> activeTime r \<le> activeTime r' \<and>
      lastUpdated r \<le> lastUpdated r'"
    by simp
qed

lemma evolves_refl: "store_ok t ld \<Longrightarrow> evolves t ld ld"
  by (simp add: evolves_def grows_refl)

lemma evolves_trans: "evolves t a b \<Longrightarrow> evolves t b c \<Longrightarrow> evolves t a c"
  by (auto simp: evolves_def intro: grows_trans)

lemma store_ok_mono: "store_ok t ld \<Longrightarrow> t \<le> t' \<Longrightarrow> store_ok t' ld"
  by (fastforce simp: store_ok_def record_ok_def)

lemma store_okD: "store_ok t ld \<Longrightarrow> ld key = Some r \<Longrightarrow> record_ok t r"
  by (simp add: store_ok_def)

lemma record_ok_init: "record_ok t (initLineData t)"
  by (simp add: record_ok_def initLineData_def)

lemma notSeen_ok:
  "record_ok t r \<Longrightarrow>
     record_ok t (notSeen t r) \<and> activeTime r \<le> activeTime (notSeen t r) \<and>
     lastUpdated r \<le> lastUpdated (notSeen t r)"
  by (simp add: record_ok_def notSeen_def Let_def)

lemma judged_ok:
  "record_ok t r \<Longrightarrow>
     record_ok t (judged t j r) \<and> activeTime r \<le> activeTime (judged t j r) \<and>
     lastUpdated r \<le> lastUpdated (judged t j r)"
  by (simp add: record_ok_def judged_def Let_def)

lemma update_own_evolves:
  assumes "store_ok t ld" and "ld key = Some r"
    and "record_ok t r' \<and> activeTime r \<le> activeTime r' \<and> lastUpdated r \<le> lastUpdated r'"
  shows "evolves t ld (ld(key \<mapsto> r'))"
  using assms unfolding evolves_def store_ok_def grows_def by auto

lemma update_new_evolves:
  assumes "store_ok t ld" and "ld key = None" and "record_ok t r'"
  shows "evolves t ld (ld(key \<mapsto> r'))"
  using assms unfolding evolves_def store_ok_def grows_def by auto

lemma line_step_evolves:
  assumes "store_ok t ld"
  shows "evolves t ld (line_step t lineStatus key ld)"
proof (cases ld key rule: lookup_cases)
  case (own r)
  from store_okD [OF assms own(1)] have "record_ok t r" .
  from update_own_evolves [OF assms own(1) judged_ok [OF this]] own(2)
  show ?thesis by (simp add: line_step_def)
next
  case inherited
  with assms show ?thesis by (simp add: line_step_def evolves_refl)
next
  case absent
  from record_ok_init have "record_ok t (judged t (map_of lineStatus key) (initLineData t))"
    by (simp add: judged_ok)
  from update_new_evolves [OF assms absent(1) this] absent(2)
  show ?thesis by (simp add: line_step_def)
qed

lemma lineId_step_evolves:
  assumes "store_ok t ld"
  shows "evolves t ld (state_of (lineId_step t seen key ld))"
proof (cases "key \<in> set seen")
  case True
  with assms show ?thesis by (simp add: lineId_step_def evolves_refl)
next
  case False
  show ?thesis
  proof (cases ld key rule: lookup_cases)
    case (own r)
    from store_okD [OF assms own(1)] have "record_ok t r" .
    from update_own_evolves [OF assms own(1) notSeen_ok [OF this]] own(2) False
    show ?thesis by (simp add: lineId_step_def)
  next
    case inherited
    with assms False show ?thesis by (simp add: lineId_step_def evolves_refl)
  next
    case absent
    with assms False show ?thesis by (simp add: lineId_step_def evolves_refl)
  qed
qed

text \<open>Loops keep what each of their steps keeps; \<open>p\<close> picks the store out of the loop
  state.\<close>

lemma fold_evolves:
  assumes "\<And>x s. store_ok t (p s) \<Longrightarrow> evolves t (p s) (p (f x s))"
  shows "store_ok t (p s) \<Longrightarrow> evolves t (p s) (p (fold f xs s))"
proof (induction xs arbitrary: s)
  case Nil
  then show ?case by (simp add: evolves_refl)
next
  case (Cons x xs)
  from assms [OF Cons.prems] have one: "evolves t (p s) (p (f x s))" .
  then have "store_ok t (p (f x s))" by (simp add: evolves_def)
  from Cons.IH [OF this] have "evolves t (p (f x s)) (p (fold f xs (f x s)))" .
  with one show ?case by (auto intro: evolves_trans)
qed

lemma forEach_evolves:
  assumes "\<And>x s. store_ok t (p s) \<Longrightarrow> evolves t (p s) (p (state_of (f x s)))"
  shows "store_ok t (p s) \<Longrightarrow> evolves t (p s) (p (state_of (forEach f xs s)))"
proof (induction xs arbitrary: s)
  case Nil
  then show ?case by (simp add: evolves_refl)
next
  case (Cons x xs)
  from assms [OF Cons.prems] have one: "evolves t (p s) (p (state_of (f x s)))" .
  show ?case
  proof (cases "f x s")
    case (Threw s')
    with one show ?thesis by simp
  next
    case (Returned s')
    with one have one': "evolves t (p s) (p s')" by simp
    then have "store_ok t (p s')" by (simp add: evolves_def)
    from Cons.IH [OF this] have "evolves t (p s') (p (state_of (forEach f xs s')))" .
    with one' Returned show ?thesis by (auto intro: evolves_trans)
  qed
qed

lemma onResults_evolves:
  assumes "store_ok t ld"
  shows "evolves t ld (state_of (onResults t results ld))"
proof (cases "list_ex throws results")
  case True
  with assms show ?thesis by (simp add: onResults_eq evolves_refl)
next
  case False
  from forEach_evolves [where p = "\<lambda>x. x" and f = "lineId_step t []",
      OF lineId_step_evolves assms]
  have "evolves t ld (state_of (forEach (lineId_step t []) SUBWAY_LINES ld))" .
  with False show ?thesis by (simp add: onResults_eq)
qed

lemma refreshData_gtfs_evolves:
  "store_ok t ld \<Longrightarrow> evolves t ld (refreshData_gtfs t requests ld)"
  by (auto simp: refreshData_gtfs_def gtfs_cycle_def evolves_refl onResults_evolves
      split: promise.splits)

lemma refreshData_scrape_evolves:
  "store_ok t ld \<Longrightarrow> evolves t ld (refreshData_scrape t scraped ld)"
  by (auto simp: refreshData_scrape_def evolves_refl split: promise.splits
      intro!: fold_evolves [where p = "\<lambda>x. x"] line_step_evolves)

subsection \<open>The queries\<close>

lemma getStatus_snd: "snd (getStatus this line) = this"
  by (simp add: getStatus_def split: property.splits)

lemma getUptime_snd: "snd (getUptime now this line) = this"
  by (simp add: getUptime_def Let_def split: property.splits)

lemma queries_Absent:
  "lookup (lineData this) line = Absent \<Longrightarrow>
     getStatus this line = (Not_found, this) \<and> getUptime now this line = (Not_found, this)"
  by (simp add: getStatus_def getUptime_def)

text \<open>
  Claim C8. For a line with a record, \<open>getUptime\<close> at clock reading \<open>now\<close> takes
  \<open>liveDelta = now - lastUpdated\<close>; when \<open>activeTime + liveDelta\<close> is under 1000
  milliseconds it answers that there is no baseline, and otherwise it formats the quotient
  of \<open>undelayedTime + d\<close> by \<open>activeTime + liveDelta\<close>, where \<open>d\<close> is \<open>liveDelta\<close> if the
  status is \<open>NOT_DELAYED\<close> and 0 otherwise. The query leaves the cache as it is.
\<close>

theorem getUptime_fraction:
  assumes "lineData this line = Some r"
  shows "getUptime now this line =
           (if activeTime r + (now - lastUpdated r) < 1000 then No_baseline
            else Fixed3 (undelayedTime r + (if status r = NOT_DELAYED then now - lastUpdated r else 0))
                        (activeTime r + (now - lastUpdated r)),
            this)"
  using assms by (simp add: getUptime_def Let_def)

text \<open>
  Witness for C8: line G is scraped as undelayed at 2000 and as delayed at 5000; the query
  at 5000 formats 2000 / 5000. A query at 500 on the fresh cache has no baseline.
\<close>

theorem getUptime_fraction_witness:
  "lineData (run [Refresh_scrape 2000 (Resolved [(''G'', undelayed)]),
                  Refresh_scrape 5000 (Resolved [(''G'', delayed)])] (new_DataCache 0)) ''G''
     = Some \<lparr>activeTime = 5000, undelayedTime = 2000, lastUpdated = 5000, status = DELAYED\<rparr> \<and>
   fst (getUptime 5000
         (run [Refresh_scrape 2000 (Resolved [(''G'', undelayed)]),
               Refresh_scrape 5000 (Resolved [(''G'', delayed)])] (new_DataCache 0)) ''G'')
     = Fixed3 2000 5000 \<and>
   fst (getUptime 500 (new_DataCache 0) ''G'') = No_baseline"
proof -
  let ?cache = "run [Refresh_scrape 2000 (Resolved [(''G'', undelayed)]),
                     Refresh_scrape 5000 (Resolved [(''G'', delayed)])] (new_DataCache 0)"
  let ?r = "\<lparr>activeTime = 5000, undelayedTime = 2000, lastUpdated = 5000, status = DELAYED\<rparr>"
  let ?fresh = "\<lparr>activeTime = 0, undelayedTime = 0, lastUpdated = 0, status = NOT_DELAYED\<rparr>"
  have rec: "lineData ?cache ''G'' = Some ?r"
    by (simp add: run_def scrape_defs store_defs)
  have rec0: "lineData (new_DataCache 0) ''G'' = Some ?fresh"
    by (simp add: store_defs)
  from getUptime_fraction [OF rec, of 5000] have "fst (getUptime 5000 ?cache ''G'') = Fixed3 2000 5000"
    by simp
  moreover from getUptime_fraction [OF rec0, of 500]
  have "fst (getUptime 500 (new_DataCache 0) ''G'') = No_baseline"
    by simp
  ultimately show ?thesis using rec by simp
qed

text \<open>
  Claim C9, evaluated on the name \<open>constructor\<close>. The fresh cache has no record under
  that name, yet the test \<open>!this.lineData[line]\<close> finds the function inherited from
  \<open>Object.prototype\<close>: \<open>getStatus\<close> returns the \<open>status\<close> property of that function and
  \<open>getUptime\<close> returns the text \<open>NaN\<close>, neither of them the text for a line without
  data. A name that is neither a record nor inherited, such as \<open>ZZ\<close>, gets that text.
\<close>

theorem inherited_name_not_reported_missing:
  "lineData (new_DataCache 0) ''constructor'' = None \<and>
   getStatus (new_DataCache 0) ''constructor'' = (Builtin_status, new_DataCache 0) \<and>
   getUptime 5000 (new_DataCache 0) ''constructor'' = (NaN_text, new_DataCache 0) \<and>
   getStatus (new_DataCache 0) ''ZZ'' = (Not_found, new_DataCache 0) \<and>
   getUptime 5000 (new_DataCache 0) ''ZZ'' = (Not_found, new_DataCache 0)"
proof -
  have none: "lineData (new_DataCache 0) ''constructor'' = None"
    by (simp add: store_defs)
  then have inh: "lookup (lineData (new_DataCache 0)) ''constructor'' = Inherited"
    by (simp add: lookup_def Object_prototype_names_def)
  have "lineData (new_DataCache 0) ''ZZ'' = None"
    by (simp add: store_defs)
  then have "lookup (lineData (new_DataCache 0)) ''ZZ'' = Absent"
    by (simp add: lookup_def Object_prototype_names_def)
  with none inh show ?thesis
    by (simp add: getStatus_def getUptime_def)
qed

subsection \<open>Runs\<close>

lemma clock_append: "clock (xs @ ys) = clock xs @ clock ys"
  by (induction xs rule: clock.induct) simp_all

lemma step_evolves:
  assumes "store_ok t (lineData this)" and "sorted (t # clock [e])"
  shows "evolves (last (t # clock [e])) (lineData this) (lineData (step e this))"
proof (cases e)
  case (Refresh_gtfs now requests)
  with assms have "store_ok now (lineData this)" by (auto intro: store_ok_mono)
  with Refresh_gtfs show ?thesis by (simp add: refreshData_gtfs_evolves)
next
  case (Refresh_scrape now scraped)
  with assms have "store_ok now (lineData this)" by (auto intro: store_ok_mono)
  with Refresh_scrape show ?thesis by (simp add: refreshData_scrape_evolves)
next
  case (Get_status line)
  with assms show ?thesis by (simp add: getStatus_snd evolves_refl)
next
  case (Get_uptime now line)
  with assms show ?thesis by (simp add: getUptime_snd evolves_refl)
qed

lemma sorted_clock_Cons:
  "sorted (t # clock (e # events)) \<Longrightarrow>
     sorted (t # clock [e]) \<and> sorted (last (t # clock [e]) # clock events)"
  by (cases e) auto

lemma last_clock_Cons:
  "last (last (t # clock [e]) # clock events) = last (t # clock (e # events))"
  by (cases e) auto

lemma run_evolves:
  "sorted (t # clock events) \<Longrightarrow> store_ok t (lineData this) \<Longrightarrow>
     store_ok (last (t # clock events)) (lineData (run events this)) \<and>
     grows (lineData this) (lineData (run events this))"
proof (induction events arbitrary: t this)
  case Nil
  then show ?case by (simp add: run_def grows_refl)
next
  case (Cons e events)
  let ?t = "last (t # clock [e])"
  from sorted_clock_Cons [OF Cons.prems(1)] have
    s1: "sorted (t # clock [e])" and s2: "sorted (?t # clock events)" by simp_all
  from step_evolves [OF Cons.prems(2) s1] have
    ok: "store_ok ?t (lineData (step e this))" and
    g: "grows (lineData this) (lineData (step e this))"
    by (simp_all add: evolves_def)
  from Cons.IH [OF s2 ok] have
    "store_ok (last (?t # clock events)) (lineData (run events (step e this)))" and
    "grows (lineData (step e this)) (lineData (run events (step e this)))"
    by simp_all
  with g show ?case
    by (auto simp: run_def last_clock_Cons simp del: last.simps clock.simps intro: grows_trans)
qed

lemma fold_init_ok:
  "store_ok t ld \<Longrightarrow> store_ok t (fold (\<lambda>lineId ld. ld(lineId \<mapsto> initLineData t)) lines ld)"
proof (induction lines arbitrary: ld)
  case Nil
  then show ?case by simp
next
  case (Cons lineId lines)
  from Cons.prems have "store_ok t (ld(lineId \<mapsto> initLineData t))"
    by (simp add: store_ok_def record_ok_init)
  from Cons.IH [OF this] show ?case by simp
qed

lemma new_DataCache_ok: "store_ok t (lineData (new_DataCache t))"
proof -
  have "store_ok t Map.empty" by (simp add: store_ok_def)
  from fold_init_ok [OF this] show ?thesis by (simp add: new_DataCache_def)
qed

text \<open>After a run whose clock readings never go back, the store is in order at the last
  reading, and the next event keeps it so.\<close>

lemma run_then_step:
  assumes "sorted (t0 # clock (events @ [e]))"
  shows "\<exists>t t'. store_ok t (lineData (run events (new_DataCache t0))) \<and>
           evolves t' (lineData (run events (new_DataCache t0)))
             (lineData (step e (run events (new_DataCache t0))))"
proof -
  let ?c = "run events (new_DataCache t0)"
  let ?t = "last (t0 # clock events)"
  from assms have s1: "sorted (t0 # clock events)" and s2: "sorted (?t # clock [e])"
    by (auto simp: clock_append sorted_append)
  from run_evolves [OF s1 new_DataCache_ok] have ok: "store_ok ?t (lineData ?c)" by simp
  from step_evolves [OF ok s2] ok show ?thesis by blast
qed

text \<open>
  Claim C6, with the condition on the clock that it needs. Take a cache built at \<open>t0\<close> and
  any run of cycles of either variant and queries in which the clock reading of every
  cycle is at least \<open>t0\<close> and at least the reading of the cycle before it, followed by one
  more event under the same condition. Every record after the run has
  \<open>0 \<le> undelayedTime \<le> activeTime\<close>, and each such record is still there after the next
  event, with the same inequalities and an \<open>activeTime\<close> that has not decreased. Cycles
  that fail or stop at an exception are covered as well as the successful ones.
\<close>

theorem counters_invariant:
  assumes "sorted (t0 # clock (events @ [e]))"
  shows "(\<forall>key r. lineData (run events (new_DataCache t0)) key = Some r \<longrightarrow>
            0 \<le> undelayedTime r \<and> undelayedTime r \<le> activeTime r) \<and>
         (\<forall>key r. lineData (run events (new_DataCache t0)) key = Some r \<longrightarrow>
            (\<exists>r'. lineData (step e (run events (new_DataCache t0))) key = Some r' \<and>
                  0 \<le> undelayedTime r' \<and> undelayedTime r' \<le> activeTime r' \<and>
                  activeTime r \<le> activeTime r'))"
proof -
  let ?c = "run events (new_DataCache t0)"
  from run_then_step [OF assms] obtain t t' where
    ok: "store_ok t (lineData ?c)" and
    ok': "store_ok t' (lineData (step e ?c))" and
    g: "grows (lineData ?c) (lineData (step e ?c))"
    by (auto simp: evolves_def)
  from ok have first: "\<forall>key r. lineData ?c key = Some r \<longrightarrow>
      0 \<le> undelayedTime r \<and> undelayedTime r \<le> activeTime r"
    by (simp add: store_ok_def record_ok_def)
  have second: "\<forall>key r. lineData ?c key = Some r \<longrightarrow>
      (\<exists>r'. lineData (step e ?c) key = Some r' \<and>
            0 \<le> undelayedTime r' \<and> undelayedTime r' \<le> activeTime r' \<and>
            activeTime r \<le> activeTime r')"
  proof (intro allI impI)
    fix key r
    assume "lineData ?c key = Some r"
    with g obtain r' where
      r': "lineData (step e ?c) key = Some r'" "activeTime r \<le> activeTime r'"
      unfolding grows_def by blast
    with ok' have "record_ok t' r'"
      unfolding store_ok_def by blast
    with r' show "\<exists>r'. lineData (step e ?c) key = Some r' \<and>
            0 \<le> undelayedTime r' \<and> undelayedTime r' \<le> activeTime r' \<and>
            activeTime r \<le> activeTime r'"
      by (simp add: record_ok_def)
  qed
  from first second show ?thesis by blast
qed

text \<open>
  Witness for C6: a scrape at 2000 that judges G undelayed, a query at 2500, then a scrape
  at 5000 that judges G delayed. The readings are in order, G holds 2000 / 2000 after the
  first two events, and the theorem gives the record after the second scrape.
\<close>

theorem counters_invariant_witness:
  "sorted (0 # clock ([Refresh_scrape 2000 (Resolved [(''G'', undelayed)]),
                       Get_uptime 2500 ''G''] @
                      [Refresh_scrape 5000 (Resolved [(''G'', delayed)])])) \<and>
   lineData (run [Refresh_scrape 2000 (Resolved [(''G'', undelayed)]),
                  Get_uptime 2500 ''G''] (new_DataCache 0)) ''G''
     = Some \<lparr>activeTime = 2000, undelayedTime = 2000, lastUpdated = 2000,
             status = NOT_DELAYED\<rparr> \<and>
   (\<exists>r'. lineData (step (Refresh_scrape 5000 (Resolved [(''G'', delayed)]))
                 (run [Refresh_scrape 2000 (Resolved [(''G'', undelayed)]),
                       Get_uptime 2500 ''G''] (new_DataCache 0))) ''G'' = Some r' \<and>
         0 \<le> undelayedTime r' \<and> undelayedTime r' \<le> activeTime r' \<and>
         2000 \<le> activeTime r')"
proof -
  let ?events = "[Refresh_scrape 2000 (Resolved [(''G'', undelayed)]),
                  Get_uptime 2500 ''G'']"
  let ?e = "Refresh_scrape 5000 (Resolved [(''G'', delayed)])"
  let ?before = "\<lparr>activeTime = 2000, undelayedTime = 2000, lastUpdated = 2000,
                  status = NOT_DELAYED\<rparr>"
  have h: "sorted (0 # clock (?events @ [?e]))"
    by simp
  have rec: "lineData (run ?events (new_DataCache 0)) ''G'' = Some ?before"
    by (simp add: run_def getUptime_snd scrape_defs store_defs)
  from counters_invariant [OF h] rec
  have "\<exists>r'. lineData (step ?e (run ?events (new_DataCache 0))) ''G'' = Some r' \<and>
         0 \<le> undelayedTime r' \<and> undelayedTime r' \<le> activeTime r' \<and>
         activeTime ?before \<le> activeTime r'"
    by blast
  then have "\<exists>r'. lineData (step ?e (run ?events (new_DataCache 0))) ''G'' = Some r' \<and>
         0 \<le> undelayedTime r' \<and> undelayedTime r' \<le> activeTime r' \<and>
         2000 \<le> activeTime r'"
    by simp
  with h rec show ?thesis by blast
qed

text \<open>
  Counterexample to C6 as stated, for any sequence of cycles: the wall clock is set back
  between two scrape cycles. Line A is judged undelayed at reading 1000 and delayed at
  reading 400. The delta of the second cycle is -600: \<open>activeTime\<close> falls from 1000 to
  400 and \<open>undelayedTime\<close>, still 1000, exceeds it.
\<close>

theorem counters_break_when_clock_goes_back:
  "lineData (run [Refresh_scrape 1000 (Resolved [(''A'', undelayed)])] (new_DataCache 0)) ''A''
     = Some \<lparr>activeTime = 1000, undelayedTime = 1000, lastUpdated = 1000,
             status = NOT_DELAYED\<rparr> \<and>
   lineData (run [Refresh_scrape 1000 (Resolved [(''A'', undelayed)]),
                  Refresh_scrape 400 (Resolved [(''A'', delayed)])] (new_DataCache 0)) ''A''
     = Some \<lparr>activeTime = 400, undelayedTime = 1000, lastUpdated = 400, status = DELAYED\<rparr>"
  by (simp add: run_def scrape_defs store_defs)

text \<open>
  Claim C7, with the condition on the clock that it needs. Along a run in which the clock
  reading of every cycle is at least \<open>t0\<close> and at least the reading of the cycle before
  it, every record is still there after the next event with a \<open>lastUpdated\<close> that has not
  decreased. A feed cycle in which a request is rejected, so that \<open>Promise.all\<close> rejects,
  and a scrape cycle whose \<open>scrapePage\<close> is rejected leave the whole store as it was,
  whatever the clock reads.
\<close>

theorem lastUpdated_monotone:
  assumes "sorted (t0 # clock (events @ [e]))"
  shows "(\<forall>key r. lineData (run events (new_DataCache t0)) key = Some r \<longrightarrow>
            (\<exists>r'. lineData (step e (run events (new_DataCache t0))) key = Some r' \<and>
                  lastUpdated r \<le> lastUpdated r')) \<and>
         (\<forall>now requests ld.
            Rejected \<in> requests ` set FEED_IDS \<longrightarrow>
              refreshData_gtfs now requests ld = ld) \<and>
         (\<forall>now ld. refreshData_scrape now Rejected ld = ld)"
proof -
  let ?c = "run events (new_DataCache t0)"
  from run_then_step [OF assms] have g: "grows (lineData ?c) (lineData (step e ?c))"
    by (auto simp: evolves_def)
  then have "\<forall>key r. lineData ?c key = Some r \<longrightarrow>
      (\<exists>r'. lineData (step e ?c) key = Some r' \<and> lastUpdated r \<le> lastUpdated r')"
    unfolding grows_def by blast
  moreover have
    "\<forall>now requests ld. Rejected \<in> requests ` set FEED_IDS \<longrightarrow>
       refreshData_gtfs now requests ld = ld"
    by (simp add: gtfs_failed_noop)
  moreover have "\<forall>now ld. refreshData_scrape now Rejected ld = ld"
    by (simp add: refreshData_scrape_def)
  ultimately show ?thesis by blast
qed

text \<open>
  Witness for C7: after a feed cycle without alerts at 2000, a feed cycle at 5000 whose
  request is rejected. Line A was last updated at 2000 and keeps its whole record.
\<close>

theorem lastUpdated_monotone_witness:
  "sorted (0 # clock ([Refresh_gtfs 2000 (\<lambda>feedId. Resolved (Decoded \<lparr>entity = []\<rparr>))] @
                      [Refresh_gtfs 5000 (\<lambda>feedId. Rejected)])) \<and>
   lineData (run [Refresh_gtfs 2000 (\<lambda>feedId. Resolved (Decoded \<lparr>entity = []\<rparr>))]
               (new_DataCache 0)) ''A''
     = Some \<lparr>activeTime = 2000, undelayedTime = 2000, lastUpdated = 2000,
             status = NOT_DELAYED\<rparr> \<and>
   (\<exists>r'. lineData (step (Refresh_gtfs 5000 (\<lambda>feedId. Rejected))
                 (run [Refresh_gtfs 2000 (\<lambda>feedId. Resolved (Decoded \<lparr>entity = []\<rparr>))]
                    (new_DataCache 0))) ''A'' = Some r' \<and>
         2000 \<le> lastUpdated r') \<and>
   refreshData_gtfs 5000 (\<lambda>feedId. Rejected)
       (lineData (run [Refresh_gtfs 2000 (\<lambda>feedId. Resolved (Decoded \<lparr>entity = []\<rparr>))]
          (new_DataCache 0)))
     = lineData (run [Refresh_gtfs 2000 (\<lambda>feedId. Resolved (Decoded \<lparr>entity = []\<rparr>))]
         (new_DataCache 0))"
proof -
  let ?events = "[Refresh_gtfs 2000 (\<lambda>feedId. Resolved (Decoded \<lparr>entity = []\<rparr>))]"
  let ?requests = "(\<lambda>feedId::string. (Rejected :: msg promise))"
  let ?before = "\<lparr>activeTime = 2000, undelayedTime = 2000, lastUpdated = 2000,
                  status = NOT_DELAYED\<rparr>"
  have h: "sorted (0 # clock (?events @ [Refresh_gtfs 5000 ?requests]))"
    by simp
  have rec: "lineData (run ?events (new_DataCache 0)) ''A'' = Some ?before"
    by (simp add: run_def gtfs_defs store_defs)
  have failed: "Rejected \<in> ?requests ` set FEED_IDS"
    by (simp add: FEED_IDS_def)
  note inst = lastUpdated_monotone [OF h]
  from inst rec
  have "\<exists>r'. lineData (step (Refresh_gtfs 5000 ?requests) (run ?events (new_DataCache 0))) ''A''
            = Some r' \<and> lastUpdated ?before \<le> lastUpdated r'"
    by blast
  then have a: "\<exists>r'. lineData (step (Refresh_gtfs 5000 ?requests)
                    (run ?events (new_DataCache 0))) ''A'' = Some r' \<and>
                  2000 \<le> lastUpdated r'"
    by simp
  have b: "refreshData_gtfs 5000 ?requests (lineData (run ?events (new_DataCache 0)))
             = lineData (run ?events (new_DataCache 0))"
    by (rule inst [THEN conjunct2, THEN conjunct1, rule_format, OF failed])
  from h rec a b show ?thesis by blast
qed

text \<open>
  Counterexample to C7 as stated: the wall clock is set back between two scrape cycles.
  Line G is judged undelayed at reading 1000 and again at reading 400, and its
  \<open>lastUpdated\<close> falls from 1000 to 400.
\<close>

theorem lastUpdated_goes_back_with_clock:
  "lineData (run [Refresh_scrape 1000 (Resolved [(''G'', undelayed)])] (new_DataCache 0)) ''G''
     = Some \<lparr>activeTime = 1000, undelayedTime = 1000, lastUpdated = 1000,
             status = NOT_DELAYED\<rparr> \<and>
   lineData (run [Refresh_scrape 1000 (Resolved [(''G'', undelayed)]),
                  Refresh_scrape 400 (Resolved [(''G'', undelayed)])] (new_DataCache 0)) ''G''
     = Some \<lparr>activeTime = 400, undelayedTime = 400, lastUpdated = 400, status = NOT_DELAYED\<rparr>"
  by (simp add: run_def scrape_defs store_defs)

subsection \<open>The feed cycle\<close>

lemma search_delaysRegExp:
  "search alertHeader delaysRegExp \<ge> 0 \<longleftrightarrow>
     map toUpperCase (take 7 alertHeader) = ''DELAYS'' @ [CHR 0x08]"
  by (simp add: search_def delaysRegExp_def toUpperCase_def eval_nat_numeral)


text \<open>
  Claim C2, evaluated on the header \<open>Delays\<close>. The pattern asks for a backspace after the
  six letters, so the header does not match: \<open>search\<close> returns -1. The callback does not
  get that far: it reads \<open>text\<close> on the array of translations, finds \<open>undefined\<close> and throws
  at \<open>search\<close>. In the words of the specification the entity marks route A as delayed; the
  entity step marks nothing, and after the cycle at 1000 route A of the fresh cache is
  untouched and \<open>NOT_DELAYED\<close>.
\<close>

theorem delays_header_not_matched:
  "search ''Delays'' delaysRegExp = - 1 \<and>
   Array_text [\<lparr>text' = ''Delays''\<rparr>] = None \<and>
   spec_delay_routes
     \<lparr>alert = Some \<lparr>header_text = Some \<lparr>translation = [\<lparr>text' = ''Delays''\<rparr>]\<rparr>,
                     informed_entity = [\<lparr>route_id = Some ''A''\<rparr>]\<rparr>\<rparr> = [''A''] \<and>
   feedEntity_step 1000
     \<lparr>alert = Some \<lparr>header_text = Some \<lparr>translation = [\<lparr>text' = ''Delays''\<rparr>]\<rparr>,
                     informed_entity = [\<lparr>route_id = Some ''A''\<rparr>]\<rparr>\<rparr>
     ([], lineData (new_DataCache 0)) = Threw ([], lineData (new_DataCache 0)) \<and>
   refreshData_gtfs 1000 (\<lambda>feedId. Resolved (Decoded \<lparr>entity =
       [\<lparr>alert = Some \<lparr>header_text = Some \<lparr>translation = [\<lparr>text' = ''Delays''\<rparr>]\<rparr>,
                       informed_entity = [\<lparr>route_id = Some ''A''\<rparr>]\<rparr>\<rparr>]\<rparr>))
     (lineData (new_DataCache 0)) ''A''
     = Some \<lparr>activeTime = 0, undelayedTime = 0, lastUpdated = 0, status = NOT_DELAYED\<rparr>"
proof -
  let ?e = "\<lparr>alert = Some \<lparr>header_text = Some \<lparr>translation = [\<lparr>text' = ''Delays''\<rparr>]\<rparr>,
                     informed_entity = [\<lparr>route_id = Some ''A''\<rparr>]\<rparr>\<rparr>"
  let ?ld = "lineData (new_DataCache 0)"
  have pattern: "search ''Delays'' delaysRegExp = - 1"
    by (simp add: search_def delaysRegExp_def toUpperCase_def)
  have header: "Array_text [\<lparr>text' = ''Delays''\<rparr>] = None"
    by (simp add: Array_text_def)
  have spec: "spec_delay_routes ?e = [''A'']"
    by (simp add: spec_delay_routes_def header_strings_def begins_with_delays_def
        toUpperCase_def)
  have entity: "feedEntity_step 1000 ?e ([], ?ld) = Threw ([], ?ld)"
    by (simp add: feedEntity_step_def Array_text_def)
  then have "onResults 1000 [Decoded \<lparr>entity = [?e]\<rparr>] ?ld = Threw ?ld"
    by (simp add: onResults_def feedMessage_step_def)
  then have "refreshData_gtfs 1000 (\<lambda>feedId. Resolved (Decoded \<lparr>entity = [?e]\<rparr>)) ?ld = ?ld"
    by (simp add: refreshData_gtfs_def gtfs_cycle_def FEED_IDS_def)
  moreover have "?ld ''A''
      = Some \<lparr>activeTime = 0, undelayedTime = 0, lastUpdated = 0, status = NOT_DELAYED\<rparr>"
    by (simp add: store_defs)
  ultimately have "refreshData_gtfs 1000 (\<lambda>feedId. Resolved (Decoded \<lparr>entity = [?e]\<rparr>)) ?ld ''A''
      = Some \<lparr>activeTime = 0, undelayedTime = 0, lastUpdated = 0, status = NOT_DELAYED\<rparr>"
    by simp
  with pattern header spec entity show ?thesis by blast
qed

text \<open>
  Claim C3, evaluated on a payload that neither decoder accepts (both decoders are the
  empty map). \<open>makeRequest\<close> resolves with \<open>{}\<close>; the callback throws at
  \<open>feedMessage.entity.forEach\<close> before any line is touched, and the cycle leaves the store
  as it was. A cycle whose feed decodes to a message without entities advances the lines:
  on the fresh cache at 1000, line A gets 1000 / 1000.
\<close>

theorem undecodable_payload_aborts_cycle:
  "makeRequest Map.empty Map.empty (Response 200 chunks) = Resolved EmptyObject \<and>
   gtfs_cycle now (\<lambda>feedId. makeRequest Map.empty Map.empty (Response 200 chunks)) ld
     = Resolved (Threw ld) \<and>
   refreshData_gtfs now (\<lambda>feedId. makeRequest Map.empty Map.empty (Response 200 chunks)) ld
     = ld \<and>
   lineData (new_DataCache 0) ''A''
     = Some \<lparr>activeTime = 0, undelayedTime = 0, lastUpdated = 0, status = NOT_DELAYED\<rparr> \<and>
   refreshData_gtfs 1000 (\<lambda>feedId. Resolved (Decoded \<lparr>entity = []\<rparr>))
     (lineData (new_DataCache 0)) ''A''
     = Some \<lparr>activeTime = 1000, undelayedTime = 1000, lastUpdated = 1000,
             status = NOT_DELAYED\<rparr>"
proof -
  have request: "makeRequest Map.empty Map.empty (Response 200 chunks) = Resolved EmptyObject"
    by (simp add: makeRequest_def)
  have cycle: "gtfs_cycle now (\<lambda>feedId. Resolved EmptyObject) ld = Resolved (Threw ld)"
    by (simp add: gtfs_cycle_def FEED_IDS_def onResults_eq)
  then have whole: "refreshData_gtfs now (\<lambda>feedId. Resolved EmptyObject) ld = ld"
    by (simp add: refreshData_gtfs_def)
  have "lineData (new_DataCache 0) ''A''
     = Some \<lparr>activeTime = 0, undelayedTime = 0, lastUpdated = 0, status = NOT_DELAYED\<rparr>"
    by (simp add: store_defs)
  moreover have
    "refreshData_gtfs 1000 (\<lambda>feedId. Resolved (Decoded \<lparr>entity = []\<rparr>))
       (lineData (new_DataCache 0)) ''A''
     = Some \<lparr>activeTime = 1000, undelayedTime = 1000, lastUpdated = 1000,
             status = NOT_DELAYED\<rparr>"
    by (simp add: gtfs_defs store_defs)
  ultimately show ?thesis using request cycle whole by simp
qed



text \<open>
  Claim C10. The first mention of a route in a cycle adds \<open>now - lastUpdated\<close> to the
  \<open>activeTime\<close> of its record, sets \<open>lastUpdated\<close> to \<open>now\<close> and the status to \<open>DELAYED\<close>,
  and leaves \<open>undelayedTime\<close>; a route without a record that is not an inherited name
  gets a fresh record with both counters at 0. A second mention changes nothing in the
  store, and after any further mentions of any routes in the same cycle the route is as
  the first mention left it. So when the loop over the informed entities of an alert has
  run, a route it named, however often, is as one mention leaves it.
\<close>

theorem repeated_mention_idempotent:
  "(ld key = Some r \<longrightarrow>
      markDelayed now key ld key =
        Some \<lparr>activeTime = activeTime r + (now - lastUpdated r),
              undelayedTime = undelayedTime r,
              lastUpdated = now,
              status = DELAYED\<rparr>) \<and>
   (lookup ld key = Absent \<longrightarrow>
      markDelayed now key ld key =
        Some \<lparr>activeTime = 0, undelayedTime = 0, lastUpdated = now, status = DELAYED\<rparr>) \<and>
   markDelayed now key (markDelayed now key ld) = markDelayed now key ld \<and>
   fold (markDelayed now) keys (markDelayed now key ld) key = markDelayed now key ld key \<and>
   (key \<in> set (routes informed) \<longrightarrow>
      snd (fold (infEntity_step now) informed (seen, ld)) key = markDelayed now key ld key)"
proof (intro conjI impI)
  assume "ld key = Some r"
  then show "markDelayed now key ld key =
        Some \<lparr>activeTime = activeTime r + (now - lastUpdated r),
              undelayedTime = undelayedTime r,
              lastUpdated = now,
              status = DELAYED\<rparr>"
    by (simp add: markDelayed_own seenDelayed_def)
next
  assume "lookup ld key = Absent"
  then show "markDelayed now key ld key =
        Some \<lparr>activeTime = 0, undelayedTime = 0, lastUpdated = now, status = DELAYED\<rparr>"
    by (simp add: markDelayed_def seenDelayed_def initLineData_def)
next
  show "markDelayed now key (markDelayed now key ld) = markDelayed now key ld"
    by (rule markDelayed_twice)
next
  show "fold (markDelayed now) keys (markDelayed now key ld) key = markDelayed now key ld key"
    by (simp add: fold_markDelayed markDelayed_twice)
next
  assume "key \<in> set (routes informed)"
  then show "snd (fold (infEntity_step now) informed (seen, ld)) key
      = markDelayed now key ld key"
    by (simp add: fold_infEntity_step fold_markDelayed)
qed

text \<open>
  Witness for C10: on the fresh cache at 1000, an alert lists route A twice. After the
  loop over its informed entities A has \<open>activeTime = 1000\<close>, \<open>undelayedTime = 0\<close>,
  \<open>lastUpdated = 1000\<close> and is \<open>DELAYED\<close>, as after a single mention. Route T has no
  record and gets a fresh one at its first mention.
\<close>

theorem repeated_mention_idempotent_witness:
  "lineData (new_DataCache 0) ''A''
     = Some \<lparr>activeTime = 0, undelayedTime = 0, lastUpdated = 0, status = NOT_DELAYED\<rparr> \<and>
   routes [\<lparr>route_id = Some ''A''\<rparr>, \<lparr>route_id = Some ''A''\<rparr>] = [''A'', ''A''] \<and>
   snd (fold (infEntity_step 1000) [\<lparr>route_id = Some ''A''\<rparr>, \<lparr>route_id = Some ''A''\<rparr>]
         ([], lineData (new_DataCache 0))) ''A''
     = Some \<lparr>activeTime = 1000, undelayedTime = 0, lastUpdated = 1000, status = DELAYED\<rparr> \<and>
   lookup (lineData (new_DataCache 0)) ''T'' = Absent \<and>
   markDelayed 1000 ''T'' (lineData (new_DataCache 0)) ''T''
     = Some \<lparr>activeTime = 0, undelayedTime = 0, lastUpdated = 1000, status = DELAYED\<rparr>"
proof -
  let ?informed = "[\<lparr>route_id = Some ''A''\<rparr>, \<lparr>route_id = Some ''A''\<rparr>]"
  let ?ld = "lineData (new_DataCache 0)"
  let ?fresh = "\<lparr>activeTime = 0, undelayedTime = 0, lastUpdated = 0, status = NOT_DELAYED\<rparr>"
  have rec: "?ld ''A'' = Some ?fresh"
    by (simp add: store_defs)
  have named: "routes ?informed = [''A'', ''A'']"
    by simp
  have mentioned: "''A'' \<in> set (routes ?informed)"
    by simp
  note inst = repeated_mention_idempotent
    [where ld = ?ld and key = "''A''" and r = ?fresh and now = 1000
       and informed = ?informed and seen = "[]"]
  from inst [THEN conjunct1] rec
  have once: "markDelayed 1000 ''A'' ?ld ''A''
      = Some \<lparr>activeTime = 1000, undelayedTime = 0, lastUpdated = 1000, status = DELAYED\<rparr>"
    by simp
  from inst [THEN conjunct2, THEN conjunct2, THEN conjunct2, THEN conjunct2] mentioned
  have after: "snd (fold (infEntity_step 1000) ?informed ([], ?ld)) ''A''
      = markDelayed 1000 ''A'' ?ld ''A''"
    by blast
  from after once have seen: "snd (fold (infEntity_step 1000) ?informed ([], ?ld)) ''A''
      = Some \<lparr>activeTime = 1000, undelayedTime = 0, lastUpdated = 1000, status = DELAYED\<rparr>"
    by (rule trans)
  have absent: "lookup ?ld ''T'' = Absent"
    by (simp add: store_defs)
  from repeated_mention_idempotent [where ld = ?ld and key = "''T''" and now = 1000,
      THEN conjunct2, THEN conjunct1] absent
  have created: "markDelayed 1000 ''T'' ?ld ''T''
      = Some \<lparr>activeTime = 0, undelayedTime = 0, lastUpdated = 1000, status = DELAYED\<rparr>"
    by blast
  from rec named seen absent created show ?thesis by blast
qed

subsection \<open>The scrape cycle\<close>

lemma line_step_other: "k \<noteq> line \<Longrightarrow> line_step now lineStatus line ld k = ld k"
  by (simp add: line_step_def split: property.splits)

lemma fold_line_step_other:
  "k \<notin> set lines \<Longrightarrow> fold (line_step now lineStatus) lines ld k = ld k"
  by (induction lines arbitrary: ld) (auto simp: line_step_other)

text \<open>
  Claim C5, as the code has it. The scrape cycle visits the keys of the snapshot only. A
  line that the snapshot does not judge keeps its status, and its \<open>activeTime\<close>,
  \<open>undelayedTime\<close> and \<open>lastUpdated\<close> stay as they were: the cycle accounts no time for
  it. A cycle with an empty snapshot leaves the whole store unchanged.
\<close>

theorem scrape_absent_line_untouched:
  "(line \<notin> fst ` set lineStatus \<longrightarrow>
      refreshData_scrape now (Resolved lineStatus) ld line = ld line) \<and>
   refreshData_scrape now (Resolved []) ld = ld"
  by (simp add: refreshData_scrape_def Object_keys_def fold_line_step_other)

text \<open>
  Witness for C5: the fresh cache at 500 with a snapshot that judges only line G. Line 1
  is not in the snapshot and keeps its fresh record.
\<close>

theorem scrape_absent_line_untouched_witness:
  "''1'' \<notin> fst ` set [(''G'', delayed)] \<and>
   refreshData_scrape 500 (Resolved [(''G'', delayed)]) (lineData (new_DataCache 0)) ''1''
     = Some \<lparr>activeTime = 0, undelayedTime = 0, lastUpdated = 0, status = NOT_DELAYED\<rparr> \<and>
   refreshData_scrape 500 (Resolved []) (lineData (new_DataCache 0)) = lineData (new_DataCache 0)"
proof -
  have absent: "''1'' \<notin> fst ` set [(''G'', delayed)]"
    by simp
  have rec: "lineData (new_DataCache 0) ''1''
      = Some \<lparr>activeTime = 0, undelayedTime = 0, lastUpdated = 0, status = NOT_DELAYED\<rparr>"
    by (simp add: store_defs)
  note inst = scrape_absent_line_untouched
    [where line = "''1''" and lineStatus = "[(''G'', delayed)]" and now = 500
       and ld = "lineData (new_DataCache 0)"]
  from inst absent rec
  have "refreshData_scrape 500 (Resolved [(''G'', delayed)]) (lineData (new_DataCache 0)) ''1''
      = Some \<lparr>activeTime = 0, undelayedTime = 0, lastUpdated = 0, status = NOT_DELAYED\<rparr>"
    by simp
  moreover from inst
  have "refreshData_scrape 500 (Resolved []) (lineData (new_DataCache 0))
      = lineData (new_DataCache 0)"
    by simp
  ultimately show ?thesis using absent by simp
qed

text \<open>
  Counterexample to C5 as stated: line 1 is created at 0 and a scrape cycle with an empty
  snapshot runs at 500. The line has \<open>activeTime = 0\<close> and \<open>lastUpdated = 0\<close> afterwards,
  not 500.
\<close>

theorem empty_scrape_changes_nothing:
  "refreshData_scrape 500 (Resolved []) (lineData (new_DataCache 0)) ''1''
     = Some \<lparr>activeTime = 0, undelayedTime = 0, lastUpdated = 0, status = NOT_DELAYED\<rparr>"
  by (simp add: scrape_defs store_defs)

end
